theory Spec2Isabelle
  imports Main
begin

section \<open>Python values used by the library\<close>

subsection \<open>Strings\<close>

text \<open>
  A Python \<open>str\<close> is a sequence of Unicode code points; \<open>len\<close> and iteration count
  code points. A character is modelled by its code point.
\<close>

type_synonym pychar = nat
type_synonym pystr = "pychar list"

definition ascii :: "string \<Rightarrow> pystr" where
  \<comment> \<open>A string literal of ASCII characters.\<close>
  "ascii s = map of_char s"

subsection \<open>Errors\<close>

text \<open>
  The first seven errors are the subclasses of \<open>RNOKPPError\<close> declared by the module;
  the last three are the builtin exceptions that the Python operations used by the module
  can raise.
\<close>

datatype date = Date (toordinal: int)

datatype error =
    InvalidControlDigit
  | NumberGreaterThanZero
  | MoreThan10Digits
  | LessThan10Digits
  | StringDoesNotConsistOfDigits
  | NotAllowedDate date
  | DateInFuture date
  | ValueError
  | IndexError
  | OverflowError

fun is_RNOKPPError :: "error \<Rightarrow> bool" where
  "is_RNOKPPError ValueError = False"
| "is_RNOKPPError IndexError = False"
| "is_RNOKPPError OverflowError = False"
| "is_RNOKPPError _ = True"

subsection \<open>\<open>int(c)\<close> on one character\<close>

text \<open>
  \<open>int\<close> applied to a one-character string returns the digit value of a character of
  Unicode category Nd (decimal digit) and raises \<open>ValueError\<close> on every other character:
  whitespace and signs are only accepted around at least one digit. The decimal digits
  of Unicode come in runs of ten consecutive code points for the values 0 to 9;
  \<open>decimal_zeros\<close> lists the code point of the zero of each run (Unicode 14.0, the
  character database of CPython 3.11). The first run is ASCII \<open>0\<close> to \<open>9\<close>.
\<close>

definition decimal_zeros :: "nat list" where
  "decimal_zeros =
    [0x30, 0x660, 0x6F0, 0x7C0, 0x966, 0x9E6, 0xA66, 0xAE6, 0xB66, 0xBE6, 0xC66,
     0xCE6, 0xD66, 0xDE6, 0xE50, 0xED0, 0xF20, 0x1040, 0x1090, 0x17E0, 0x1810,
     0x1946, 0x19D0, 0x1A80, 0x1A90, 0x1B50, 0x1BB0, 0x1C40, 0x1C50, 0xA620,
     0xA8D0, 0xA900, 0xA9D0, 0xA9F0, 0xAA50, 0xABF0, 0xFF10, 0x104A0, 0x10D30,
     0x11066, 0x110F0, 0x11136, 0x111D0, 0x112F0, 0x11450, 0x114D0, 0x11650,
     0x116C0, 0x11730, 0x118E0, 0x11950, 0x11C50, 0x11D50, 0x11DA0, 0x16A60,
     0x16AC0, 0x16B50, 0x1D7CE, 0x1D7D8, 0x1D7E2, 0x1D7EC, 0x1D7F6, 0x1E140,
     0x1E2F0, 0x1E950, 0x1FBF0]"

definition to_decimal :: "pychar \<Rightarrow> nat option" where
  \<comment> \<open>The decimal digit value of a character, if it has one.\<close>
  "to_decimal c =
     (case filter (\<lambda>z. z \<le> c \<and> c < z + 10) decimal_zeros of
        [] \<Rightarrow> None
      | z # _ \<Rightarrow> Some (c - z))"

definition py_int :: "pychar \<Rightarrow> error + int" where
  "py_int c = (case to_decimal c of None \<Rightarrow> Inl ValueError | Some d \<Rightarrow> Inr (int d))"

definition isdecimal :: "pychar \<Rightarrow> bool" where
  \<comment> \<open>The characters that \<open>int\<close> converts.\<close>
  "isdecimal c = (to_decimal c \<noteq> None)"

definition digit_value :: "pychar \<Rightarrow> int" where
  \<comment> \<open>The value \<open>int(c)\<close> of a character that \<open>int\<close> converts.\<close>
  "digit_value c = (case to_decimal c of None \<Rightarrow> 0 | Some d \<Rightarrow> int d)"

definition ascii_digit :: "pychar \<Rightarrow> bool" where
  \<comment> \<open>The characters \<open>0\<close> to \<open>9\<close>.\<close>
  "ascii_digit c = (48 \<le> c \<and> c \<le> 57)"

fun int_each :: "pystr \<Rightarrow> error + int list" where
  \<comment> \<open>\<open>[int(c) for c in s]\<close>: the first character that \<open>int\<close> refuses raises.\<close>
  "int_each [] = Inr []"
| "int_each (c # cs) =
     (case py_int c of
        Inl e \<Rightarrow> Inl e
      | Inr d \<Rightarrow> (case int_each cs of Inl e \<Rightarrow> Inl e | Inr ds \<Rightarrow> Inr (d # ds)))"

subsection \<open>\<open>str(n)\<close> and the format \<open>05d\<close>\<close>

function digits_of :: "nat \<Rightarrow> nat list" where
  \<comment> \<open>The decimal digits of a number, most significant first.\<close>
  "digits_of n = (if n < 10 then [n] else digits_of (n div 10) @ [n mod 10])"
  by pat_completeness auto
termination
  by (relation "measure id") auto

declare digits_of.simps [simp del]

definition digit_char :: "nat \<Rightarrow> pychar" where
  "digit_char d = 48 + d"

definition str_int :: "int \<Rightarrow> pystr" where
  \<comment> \<open>\<open>str(n)\<close> for an integer; 45 is the minus sign.\<close>
  "str_int n =
     (if n < 0 then 45 # map digit_char (digits_of (nat (- n)))
      else map digit_char (digits_of (nat n)))"

definition format_05d :: "int \<Rightarrow> pystr" where
  \<comment> \<open>\<open>f"{n:05d}"\<close>: zero-padded after the sign to a width of at least 5; never truncated.\<close>
  "format_05d n =
     (if n < 0
      then (let ds = digits_of (nat (- n))
            in 45 # replicate (4 - length ds) 48 @ map digit_char ds)
      else (let ds = digits_of (nat n)
            in replicate (5 - length ds) 48 @ map digit_char ds))"

subsection \<open>Dates\<close>

text \<open>
  A \<open>datetime.date\<close> is identified by its proleptic Gregorian ordinal (day 1 is
  0001-01-01), which is how the type compares, subtracts and adds days. The calendar
  functions below are those of the \<open>datetime\<close> module; they are used to name dates.
\<close>

instantiation date :: linorder
begin

definition less_eq_date :: "date \<Rightarrow> date \<Rightarrow> bool" where
  "less_eq_date a b = (toordinal a \<le> toordinal b)"

definition less_date :: "date \<Rightarrow> date \<Rightarrow> bool" where
  "less_date a b = (toordinal a < toordinal b)"

instance
  by standard (auto simp: less_eq_date_def less_date_def date.expand)

end

definition MAXORDINAL :: int where
  \<comment> \<open>The ordinal of \<open>date.max\<close>, 9999-12-31.\<close>
  "MAXORDINAL = 3652059"

definition is_leap :: "int \<Rightarrow> bool" where
  "is_leap year = (year mod 4 = 0 \<and> (year mod 100 \<noteq> 0 \<or> year mod 400 = 0))"

definition days_before_year :: "int \<Rightarrow> int" where
  "days_before_year year =
     (let y = year - 1 in y * 365 + y div 4 - y div 100 + y div 400)"

definition days_in_month :: "int \<Rightarrow> int \<Rightarrow> int" where
  "days_in_month year month =
     (if month = 2 \<and> is_leap year then 29
      else [31, 28, 31, 30, 31, 30, 31, 31, 30, 31, 30, 31] ! nat (month - 1))"

definition days_before_month :: "int \<Rightarrow> int \<Rightarrow> int" where
  "days_before_month year month =
     [0, 31, 59, 90, 120, 151, 181, 212, 243, 273, 304, 334] ! nat (month - 1)
       + (if month > 2 \<and> is_leap year then 1 else 0)"

definition mk_date :: "int \<Rightarrow> int \<Rightarrow> int \<Rightarrow> error + date" where
  \<comment> \<open>\<open>datetime.date(year, month, day)\<close>.\<close>
  "mk_date year month day =
     (if \<not> (1 \<le> year \<and> year \<le> 9999) then Inl ValueError
      else if \<not> (1 \<le> month \<and> month \<le> 12) then Inl ValueError
      else if \<not> (1 \<le> day \<and> day \<le> days_in_month year month) then Inl ValueError
      else Inr (Date (days_before_year year + days_before_month year month + day)))"

definition add_days :: "date \<Rightarrow> int \<Rightarrow> error + date" where
  \<comment> \<open>\<open>d + datetime.timedelta(days=n)\<close>: both the timedelta and the sum are range-checked.\<close>
  "add_days d n =
     (if \<bar>n\<bar> > 999999999 then Inl OverflowError
      else if 0 < toordinal d + n \<and> toordinal d + n \<le> MAXORDINAL
      then Inr (Date (toordinal d + n))
      else Inl OverflowError)"

definition diff_days :: "date \<Rightarrow> date \<Rightarrow> int" where
  \<comment> \<open>\<open>(a - b).days\<close>.\<close>
  "diff_days a b = toordinal a - toordinal b"

section \<open>The module\<close>

datatype Gender = MALE | FEMALE

record Details =
  valid :: bool
  gender :: Gender
  birthday :: date

definition BASE_DATE :: date where
  \<comment> \<open>\<open>datetime.date(1900, 1, 1)\<close>\<close>
  "BASE_DATE = Date 693596"

definition MALE_DIGITS :: "int list" where
  "MALE_DIGITS = [1, 3, 5, 7, 9]"

definition FEMALE_DIGITS :: "int list" where
  "FEMALE_DIGITS = [0, 2, 4, 6, 8]"

definition parse_rnokpp :: "pystr \<Rightarrow> error + int list" where
  "parse_rnokpp rnokpp =
     (case int_each rnokpp of
        Inl e \<Rightarrow> (if e = ValueError then Inl StringDoesNotConsistOfDigits else Inl e)
      | Inr digits \<Rightarrow>
          if length digits > 10 then Inl MoreThan10Digits
          else if length digits < 10 then Inl LessThan10Digits
          else Inr digits)"

definition calculate_control_digit :: "int list \<Rightarrow> error + int" where
  \<comment> \<open>Reading \<open>digits[0]\<close> to \<open>digits[8]\<close> raises \<open>IndexError\<close> on a list shorter than 9.\<close>
  "calculate_control_digit digits =
     (if length digits < 9 then Inl IndexError
      else
        (let checksum = digits ! 0 * (- 1);
             checksum = checksum + digits ! 1 * 5;
             checksum = checksum + digits ! 2 * 7;
             checksum = checksum + digits ! 3 * 9;
             checksum = checksum + digits ! 4 * 4;
             checksum = checksum + digits ! 5 * 6;
             checksum = checksum + digits ! 6 * 10;
             checksum = checksum + digits ! 7 * 5;
             checksum = checksum + digits ! 8 * 7
         in Inr ((checksum mod 11) mod 10)))"

definition get_details :: "pystr \<Rightarrow> error + Details" where
  \<comment> \<open>\<open>parse_rnokpp\<close> returns only lists of length 10, so the reads at 8 and 9 are in range.\<close>
  "get_details rnokpp =
     (case parse_rnokpp rnokpp of
        Inl e \<Rightarrow> Inl e
      | Inr digits \<Rightarrow>
          (let gender_digit = digits ! 8;
               control_digit = digits ! 9
           in case calculate_control_digit (take 9 digits) of
                Inl e \<Rightarrow> Inl e
              | Inr calculated_control \<Rightarrow>
                  if control_digit \<noteq> calculated_control then Inl InvalidControlDigit
                  else
                    (let g = (if gender_digit mod 2 = 1 then MALE else FEMALE);
                         days_since_base =
                           digits ! 0 * 10000 + digits ! 1 * 1000 + digits ! 2 * 100
                             + digits ! 3 * 10 + digits ! 4;
                         days_since_base = days_since_base - 1
                     in case add_days BASE_DATE days_since_base of
                          Inl e \<Rightarrow> Inl e
                        | Inr bday \<Rightarrow>
                            Inr \<lparr>valid = True, gender = g, birthday = bday\<rparr>)))"

definition is_valid :: "pystr \<Rightarrow> error + bool" where
  \<comment> \<open>\<open>except RNOKPPError\<close> catches the module's errors only; any other exception propagates.\<close>
  "is_valid rnokpp =
     (case get_details rnokpp of
        Inr details \<Rightarrow> Inr (valid details)
      | Inl e \<Rightarrow> (if is_RNOKPPError e then Inr False else Inl e))"

definition is_male :: "pystr \<Rightarrow> error + bool" where
  "is_male rnokpp =
     (case get_details rnokpp of Inl e \<Rightarrow> Inl e | Inr details \<Rightarrow> Inr (gender details = MALE))"

definition is_female :: "pystr \<Rightarrow> error + bool" where
  "is_female rnokpp =
     (case get_details rnokpp of Inl e \<Rightarrow> Inl e | Inr details \<Rightarrow> Inr (gender details = FEMALE))"

definition get_gender :: "pystr \<Rightarrow> error + Gender" where
  "get_gender rnokpp =
     (case get_details rnokpp of Inl e \<Rightarrow> Inl e | Inr details \<Rightarrow> Inr (gender details))"

subsection \<open>Generation: the clock and the random generator\<close>

text \<open>
  Generation reads two things from its environment: the current date
  (\<open>datetime.date.today()\<close>), taken to be the same for the whole of one call, and the
  module-level random generator. The generator is an infinite sequence of raw draws
  with a count of the draws consumed so far; \<open>randint\<close> and \<open>choice\<close> each consume
  one draw and map it onto their range, so that every outcome in the range, and no
  other, can occur. An operation takes the world and returns its result or error
  together with the world after it.
\<close>

record world =
  today :: date
  draws :: "nat \<Rightarrow> nat"
  drawn :: nat

definition next_draw :: "world \<Rightarrow> nat \<times> world" where
  "next_draw w = (draws w (drawn w), w\<lparr>drawn := Suc (drawn w)\<rparr>)"

type_synonym 'a io = "world \<Rightarrow> (error + 'a) \<times> world"

definition return_io :: "'a \<Rightarrow> 'a io" where
  "return_io x w = (Inr x, w)"

definition raise_io :: "error \<Rightarrow> 'a io" where
  "raise_io e w = (Inl e, w)"

definition bind_io :: "'a io \<Rightarrow> ('a \<Rightarrow> 'b io) \<Rightarrow> 'b io" where
  "bind_io m f w = (case m w of (Inl e, w') \<Rightarrow> (Inl e, w') | (Inr x, w') \<Rightarrow> f x w')"

definition randint :: "int \<Rightarrow> int \<Rightarrow> int io" where
  \<comment> \<open>\<open>random.randint(a, b)\<close>: an integer of [a, b]; \<open>ValueError\<close> on an empty range.\<close>
  "randint a b w =
     (if b < a then (Inl ValueError, w)
      else (case next_draw w of (r, w') \<Rightarrow> (Inr (a + int r mod (b - a + 1)), w')))"

definition choice :: "'a list \<Rightarrow> 'a io" where
  \<comment> \<open>\<open>random.choice(xs)\<close>: an element of xs; \<open>IndexError\<close> on an empty list.\<close>
  "choice xs w =
     (if xs = [] then (Inl IndexError, w)
      else (case next_draw w of (r, w') \<Rightarrow> (Inr (xs ! (r mod length xs)), w')))"

definition Gender_random :: "Gender io" where
  "Gender_random = choice [MALE, FEMALE]"

definition generate_rnokpp :: "date \<Rightarrow> Gender \<Rightarrow> pystr io" where
  "generate_rnokpp date g w =
     (if date < BASE_DATE then (Inl (NotAllowedDate date), w)
      else if date > today w then (Inl (DateInFuture date), w)
      else
        (let days_since_base = diff_days date BASE_DATE;
             days_since_base = days_since_base + 1;
             rnokpp = format_05d days_since_base
         in bind_io (randint 0 9) (\<lambda>r1.
            bind_io (randint 0 9) (\<lambda>r2.
            bind_io (randint 0 9) (\<lambda>r3.
            bind_io (choice (if g = MALE then MALE_DIGITS else FEMALE_DIGITS)) (\<lambda>gender_digit.
              (let rnokpp =
                     rnokpp @ str_int r1 @ str_int r2 @ str_int r3 @ str_int gender_digit
               in case int_each rnokpp of
                    Inl e \<Rightarrow> raise_io e
                  | Inr digits \<Rightarrow>
                      (case calculate_control_digit digits of
                         Inl e \<Rightarrow> raise_io e
                       | Inr c \<Rightarrow> return_io (rnokpp @ str_int c))))))) w))"

definition generate_random_rnokpp :: "pystr io" where
  "generate_random_rnokpp w =
     (let days_range = diff_days (today w) BASE_DATE
      in bind_io (randint 0 days_range) (\<lambda>random_days.
           case add_days BASE_DATE random_days of
             Inl e \<Rightarrow> raise_io e
           | Inr random_date \<Rightarrow>
               bind_io Gender_random (\<lambda>g. generate_rnokpp random_date g)) w)"

fun repeat_io :: "nat \<Rightarrow> 'a io \<Rightarrow> 'a list io" where
  \<comment> \<open>\<open>[m() for _ in range(n)]\<close>\<close>
  "repeat_io 0 m = return_io []"
| "repeat_io (Suc n) m =
     bind_io m (\<lambda>x. bind_io (repeat_io n m) (\<lambda>xs. return_io (x # xs)))"

definition generate_random_rnokpp_n :: "int \<Rightarrow> pystr list io" where
  "generate_random_rnokpp_n count =
     (if count \<le> 0 then raise_io NumberGreaterThanZero
      else repeat_io (nat count) generate_random_rnokpp)"

section \<open>The specification's words\<close>

text \<open>
  The specification describes the checksum as a weighted sum with fixed per-position
  weights, applied to the digit at the same index.
\<close>

definition WEIGHTS :: "int list" where
  "WEIGHTS = [- 1, 5, 7, 9, 4, 6, 10, 5, 7]"

definition weighted_sum :: "int list \<Rightarrow> int" where
  "weighted_sum ds = (\<Sum>i < 9. WEIGHTS ! i * ds ! i)"

definition day_count :: "int list \<Rightarrow> int" where
  \<comment> \<open>The first five digits read as a decimal number.\<close>
  "day_count ds = ds ! 0 * 10000 + ds ! 1 * 1000 + ds ! 2 * 100 + ds ! 3 * 10 + ds ! 4"

definition ascii_digits :: "pystr \<Rightarrow> int list" where
  \<comment> \<open>The digits that a string of the characters \<open>0\<close> to \<open>9\<close> denotes.\<close>
  "ascii_digits s = map (\<lambda>c. int c - 48) s"

section \<open>Auxiliary notions\<close>

definition five_digits :: "nat \<Rightarrow> nat list" where
  \<comment> \<open>The five decimal digits of a number below 100000, leading zeros included.\<close>
  "five_digits n =
     [n div 10000, n div 1000 mod 10, n div 100 mod 10, n div 10 mod 10, n mod 10]"

definition constant_draws :: "nat \<Rightarrow> nat \<Rightarrow> nat" where
  \<comment> \<open>A generator whose every raw draw is r.\<close>
  "constant_draws r i = r"

section \<open>Properties\<close>

subsection \<open>Characters and digits\<close>

lemma to_decimal_ascii:
  "c < 128 \<Longrightarrow> to_decimal c = (if ascii_digit c then Some (c - 48) else None)"
  by (simp add: to_decimal_def decimal_zeros_def ascii_digit_def)

lemma ascii_digit_to_decimal: "ascii_digit c \<Longrightarrow> to_decimal c = Some (c - 48)"
  by (simp add: to_decimal_ascii ascii_digit_def)

lemma to_decimal_lt10:
  assumes "to_decimal c = Some d"
  shows "d < 10"
proof -
  from assms obtain z zs where
    f: "filter (\<lambda>z. z \<le> c \<and> c < z + 10) decimal_zeros = z # zs" and d: "d = c - z"
    by (auto simp: to_decimal_def split: list.splits)
  have "z \<in> set (filter (\<lambda>z. z \<le> c \<and> c < z + 10) decimal_zeros)"
    unfolding f by simp
  then have "z \<le> c \<and> c < z + 10" by simp
  with d show ?thesis by arith
qed

lemma digit_value_range: "0 \<le> digit_value c \<and> digit_value c \<le> 9"
  using to_decimal_lt10 [of c] by (auto simp: digit_value_def split: option.splits)

lemma ascii_digit_isdecimal: "ascii_digit c \<Longrightarrow> isdecimal c \<and> digit_value c = int c - 48"
  by (auto simp: isdecimal_def digit_value_def ascii_digit_to_decimal ascii_digit_def)

lemma ascii_nondigit: "c < 128 \<Longrightarrow> \<not> ascii_digit c \<Longrightarrow> \<not> isdecimal c"
  by (simp add: isdecimal_def to_decimal_ascii)

lemma int_each_cases:
  "int_each s = (if list_all isdecimal s then Inr (map digit_value s) else Inl ValueError)"
  by (induction s)
    (auto simp: py_int_def isdecimal_def digit_value_def split: option.splits sum.splits)

subsection \<open>The control digit\<close>

lemma weighted_sum_unfold:
  "weighted_sum ds =
     ds ! 0 * (- 1) + ds ! 1 * 5 + ds ! 2 * 7 + ds ! 3 * 9 + ds ! 4 * 4 + ds ! 5 * 6
       + ds ! 6 * 10 + ds ! 7 * 5 + ds ! 8 * 7"
  by (simp add: weighted_sum_def WEIGHTS_def lessThan_nat_numeral lessThan_Suc numeral_eq_Suc)

lemma control_digit_weighted:
  "9 \<le> length ds \<Longrightarrow> calculate_control_digit ds = Inr ((weighted_sum ds mod 11) mod 10)"
  by (simp add: calculate_control_digit_def Let_def weighted_sum_unfold)

lemma control_digit_short:
  "length ds < 9 \<Longrightarrow> calculate_control_digit ds = Inl IndexError"
  by (simp add: calculate_control_digit_def)

text \<open>
  C4. On every list of nine digits, each in [0, 9], the checksum returns the weighted
  sum with the weights \<open>[-1, 5, 7, 9, 4, 6, 10, 5, 7]\<close>, reduced modulo 11 to a
  remainder in [0, 10] (also when the weight -1 makes the sum negative) and then modulo
  10; the result is in [0, 9], and equal inputs give equal outputs.
\<close>

theorem control_digit_range:
  "length ds = 9 \<and> (\<forall>d\<in>set ds. 0 \<le> d \<and> d \<le> 9) \<longrightarrow>
     (\<exists>c. calculate_control_digit ds = Inr c
        \<and> c = (weighted_sum ds mod 11) mod 10
        \<and> 0 \<le> weighted_sum ds mod 11 \<and> weighted_sum ds mod 11 \<le> 10
        \<and> 0 \<le> c \<and> c \<le> 9
        \<and> (\<forall>ds'. ds' = ds \<longrightarrow> calculate_control_digit ds' = Inr c))"
proof
  assume a: "length ds = 9 \<and> (\<forall>d\<in>set ds. 0 \<le> d \<and> d \<le> 9)"
  let ?m = "weighted_sum ds mod 11"
  have r: "calculate_control_digit ds = Inr (?m mod 10)"
    using a by (simp add: control_digit_weighted)
  have m: "0 \<le> ?m \<and> ?m \<le> 10" by presburger
  have c: "0 \<le> ?m mod 10 \<and> ?m mod 10 \<le> 9" by presburger
  from r m c show "\<exists>c. calculate_control_digit ds = Inr c
        \<and> c = (weighted_sum ds mod 11) mod 10
        \<and> 0 \<le> weighted_sum ds mod 11 \<and> weighted_sum ds mod 11 \<le> 10
        \<and> 0 \<le> c \<and> c \<le> 9
        \<and> (\<forall>ds'. ds' = ds \<longrightarrow> calculate_control_digit ds' = Inr c)"
    by simp
qed

theorem control_digit_range_witness:
  "length [9, 0, 0, 0, 0, 0, 0, 0, 0 :: int] = 9
     \<and> list_all (\<lambda>d. 0 \<le> d \<and> d \<le> 9) [9, 0, 0, 0, 0, 0, 0, 0, 0 :: int]
     \<and> weighted_sum [9, 0, 0, 0, 0, 0, 0, 0, 0] = - 9
     \<and> calculate_control_digit [9, 0, 0, 0, 0, 0, 0, 0, 0] = Inr 2"
  using control_digit_range [of "[9, 0, 0, 0, 0, 0, 0, 0, 0]"]
  by (simp add: weighted_sum_unfold)

text \<open>
  C5. Every prefix of nine digits, each in [0, 9], whose weighted sum is 10 modulo 11
  has the control digit 0.
\<close>

theorem control_digit_collapse:
  "length ds = 9 \<Longrightarrow> \<forall>d\<in>set ds. 0 \<le> d \<and> d \<le> 9 \<Longrightarrow> weighted_sum ds mod 11 = 10
     \<Longrightarrow> calculate_control_digit ds = Inr 0"
  by (simp add: control_digit_weighted)

theorem control_digit_collapse_witness:
  "length [1, 0, 0, 0, 0, 0, 9, 9, 9 :: int] = 9
     \<and> list_all (\<lambda>d. 0 \<le> d \<and> d \<le> 9) [1, 0, 0, 0, 0, 0, 9, 9, 9 :: int]
     \<and> weighted_sum [1, 0, 0, 0, 0, 0, 9, 9, 9] mod 11 = 10
     \<and> calculate_control_digit [1, 0, 0, 0, 0, 0, 9, 9, 9] = Inr 0"
  using control_digit_collapse [of "[1, 0, 0, 0, 0, 0, 9, 9, 9]"]
  by (simp add: weighted_sum_unfold)

subsection \<open>Parsing\<close>

lemma parse_rnokpp_cases:
  "parse_rnokpp s =
     (if \<not> list_all isdecimal s then Inl StringDoesNotConsistOfDigits
      else if length s > 10 then Inl MoreThan10Digits
      else if length s < 10 then Inl LessThan10Digits
      else Inr (map digit_value s))"
  by (simp add: parse_rnokpp_def int_each_cases)

lemma parse_rnokpp_Inr:
  assumes "parse_rnokpp s = Inr ds"
  shows "length ds = 10" and "\<forall>d\<in>set ds. 0 \<le> d \<and> d \<le> 9"
    and "list_all isdecimal s" and "ds = map digit_value s"
  using assms digit_value_range
  by (auto simp: parse_rnokpp_cases split: if_splits)

lemma weighted_sum_take: "weighted_sum (take 9 ds) = weighted_sum ds"
  by (simp add: weighted_sum_def)

lemma day_count_range:
  assumes "length ds = 10" "\<forall>d\<in>set ds. 0 \<le> d \<and> d \<le> 9"
  shows "0 \<le> day_count ds \<and> day_count ds \<le> 99999"
proof -
  have "\<forall>i<10. 0 \<le> ds ! i \<and> ds ! i \<le> 9"
    using assms by (simp add: all_set_conv_all_nth)
  then have "0 \<le> ds ! 0 \<and> ds ! 0 \<le> 9" "0 \<le> ds ! 1 \<and> ds ! 1 \<le> 9" "0 \<le> ds ! 2 \<and> ds ! 2 \<le> 9"
    "0 \<le> ds ! 3 \<and> ds ! 3 \<le> 9" "0 \<le> ds ! 4 \<and> ds ! 4 \<le> 9"
    by simp_all
  then show ?thesis unfolding day_count_def by linarith
qed

lemma add_days_BASE:
  "0 \<le> n \<Longrightarrow> n \<le> 99999 \<Longrightarrow> add_days BASE_DATE (n - 1) = Inr (Date (toordinal BASE_DATE + (n - 1)))"
  by (simp add: add_days_def BASE_DATE_def MAXORDINAL_def)

lemma get_details_cases:
  "get_details s =
     (case parse_rnokpp s of
        Inl e \<Rightarrow> Inl e
      | Inr ds \<Rightarrow>
          if ds ! 9 \<noteq> (weighted_sum ds mod 11) mod 10 then Inl InvalidControlDigit
          else Inr \<lparr>valid = True,
                    gender = (if ds ! 8 mod 2 = 1 then MALE else FEMALE),
                    birthday = Date (toordinal BASE_DATE + (day_count ds - 1))\<rparr>)"
proof (cases "parse_rnokpp s")
  case (Inl e)
  then show ?thesis by (simp add: get_details_def)
next
  case (Inr ds)
  note p = parse_rnokpp_Inr [OF Inr]
  have c: "calculate_control_digit (take 9 ds) = Inr ((weighted_sum ds mod 11) mod 10)"
    using p(1) by (simp add: control_digit_weighted weighted_sum_take)
  have d: "add_days BASE_DATE (day_count ds - 1) = Inr (Date (toordinal BASE_DATE + (day_count ds - 1)))"
    using day_count_range [OF p(1) p(2)] by (simp add: add_days_BASE)
  show ?thesis
    using Inr c d by (simp add: get_details_def Let_def day_count_def)
qed


lemma get_details_error:
  assumes "get_details s = Inl e"
  shows "e \<in> {StringDoesNotConsistOfDigits, MoreThan10Digits, LessThan10Digits, InvalidControlDigit}"
  using assms
  by (auto simp: get_details_cases parse_rnokpp_cases split: sum.splits if_splits)

lemma get_details_valid: "get_details s = Inr d \<Longrightarrow> valid d"
  by (auto simp: get_details_cases split: sum.splits if_splits)

text \<open>
  C3, as the claim states it, fails: \<open>int\<close> converts every Unicode decimal digit, so a
  character that is not one of the ASCII characters \<open>0\<close> to \<open>9\<close> need not be refused.
  The ten Arabic-Indic digits U+0663 U+0666 U+0665 U+0662 U+0665 U+0660 U+0664 U+0665
  U+0667 U+0665 parse to 3652504575 and decode like that string.
\<close>

theorem parse_accepts_unicode_digit:
  "\<not> ascii_digit 0x663
   \<and> List.member [0x663, 0x666, 0x665, 0x662, 0x665, 0x660, 0x664, 0x665, 0x667, 0x665] 0x663
   \<and> parse_rnokpp [0x663, 0x666, 0x665, 0x662, 0x665, 0x660, 0x664, 0x665, 0x667, 0x665]
       = Inr [3, 6, 5, 2, 5, 0, 4, 5, 7, 5]
   \<and> get_details [0x663, 0x666, 0x665, 0x662, 0x665, 0x660, 0x664, 0x665, 0x667, 0x665]
       = Inr \<lparr>valid = True, gender = MALE, birthday = Date 730120\<rparr>"
  by (simp add: get_details_cases parse_rnokpp_cases isdecimal_def digit_value_def
        to_decimal_def decimal_zeros_def ascii_digit_def weighted_sum_unfold day_count_def
        BASE_DATE_def)

text \<open>
  C3, amended. Parsing, and hence decoding, fails with \<open>StringDoesNotConsistOfDigits\<close>
  if and only if some character of the input is not a decimal digit for \<open>int\<close>; among
  the ASCII characters (code points below 128) the decimal digits are exactly \<open>0\<close> to
  \<open>9\<close>, so whitespace, signs and letters anywhere in the string are refused.
\<close>

theorem parse_not_all_digits_iff:
  "(parse_rnokpp s = Inl StringDoesNotConsistOfDigits \<longleftrightarrow> (\<exists>c\<in>set s. \<not> isdecimal c))
   \<and> (get_details s = Inl StringDoesNotConsistOfDigits \<longleftrightarrow> (\<exists>c\<in>set s. \<not> isdecimal c))
   \<and> (\<forall>c < 128. isdecimal c \<longleftrightarrow> ascii_digit c)"
proof (intro conjI)
  show p: "parse_rnokpp s = Inl StringDoesNotConsistOfDigits \<longleftrightarrow> (\<exists>c\<in>set s. \<not> isdecimal c)"
    by (simp add: parse_rnokpp_cases list_all_iff)
  show "get_details s = Inl StringDoesNotConsistOfDigits \<longleftrightarrow> (\<exists>c\<in>set s. \<not> isdecimal c)"
    unfolding p [symmetric]
    by (auto simp: get_details_cases split: sum.splits)
  show "\<forall>c < 128. isdecimal c \<longleftrightarrow> ascii_digit c"
    by (simp add: isdecimal_def to_decimal_ascii)
qed

theorem parse_not_all_digits_iff_witness:
  "parse_rnokpp (ascii '' 234567890'') = Inl StringDoesNotConsistOfDigits
   \<and> get_details (ascii ''123456789X'') = Inl StringDoesNotConsistOfDigits
   \<and> \<not> isdecimal 32 \<and> \<not> isdecimal 43 \<and> isdecimal 0x663"
  using parse_not_all_digits_iff [of "ascii '' 234567890''"]
    parse_not_all_digits_iff [of "ascii ''123456789X''"]
  by (simp add: ascii_def isdecimal_def to_decimal_def decimal_zeros_def)

text \<open>
  C6. The scan of the characters comes before the length check: an input with a
  character that the scan refuses raises \<open>StringDoesNotConsistOfDigits\<close> whatever its
  length, and the length errors are raised exactly when every character is a digit and
  the length is above, respectively below, 10. In particular an ASCII character other
  than \<open>0\<close> to \<open>9\<close> anywhere gives the digit error, and a string of the characters
  \<open>0\<close> to \<open>9\<close> of the wrong length gives the length error.
\<close>

theorem parse_precedence:
  "((\<exists>c\<in>set s. \<not> isdecimal c) \<longrightarrow> parse_rnokpp s = Inl StringDoesNotConsistOfDigits)
   \<and> (parse_rnokpp s = Inl MoreThan10Digits \<longleftrightarrow> (\<forall>c\<in>set s. isdecimal c) \<and> length s > 10)
   \<and> (parse_rnokpp s = Inl LessThan10Digits \<longleftrightarrow> (\<forall>c\<in>set s. isdecimal c) \<and> length s < 10)
   \<and> ((\<exists>c\<in>set s. c < 128 \<and> \<not> ascii_digit c) \<longrightarrow>
         parse_rnokpp s = Inl StringDoesNotConsistOfDigits)
   \<and> ((\<forall>c\<in>set s. ascii_digit c) \<longrightarrow>
         (length s > 10 \<longrightarrow> parse_rnokpp s = Inl MoreThan10Digits)
         \<and> (length s < 10 \<longrightarrow> parse_rnokpp s = Inl LessThan10Digits))"
  using ascii_nondigit ascii_digit_isdecimal
  by (auto simp: parse_rnokpp_cases list_all_iff)

theorem parse_precedence_witness:
  "length (ascii ''1234567890+'') = 11
   \<and> parse_rnokpp (ascii ''1234567890+'') = Inl StringDoesNotConsistOfDigits
   \<and> parse_rnokpp (ascii ''12345678901'') = Inl MoreThan10Digits
   \<and> parse_rnokpp (ascii ''12+'') = Inl StringDoesNotConsistOfDigits
   \<and> parse_rnokpp (ascii ''123456789'') = Inl LessThan10Digits"
  using parse_precedence [of "ascii ''1234567890+''"] parse_precedence [of "ascii ''12345678901''"]
    parse_precedence [of "ascii ''12+''"] parse_precedence [of "ascii ''123456789''"]
  by (simp add: ascii_def ascii_digit_def)


subsection \<open>Decoding\<close>

lemma get_details_decimal:
  assumes "length s = 10" "\<forall>c\<in>set s. isdecimal c"
    and "calculate_control_digit (take 9 (map digit_value s)) = Inr (digit_value (s ! 9))"
  shows "get_details s =
          Inr \<lparr>valid = True,
               gender = (if odd (digit_value (s ! 8)) then MALE else FEMALE),
               birthday = Date (toordinal BASE_DATE + (day_count (map digit_value s) - 1))\<rparr>"
    and "add_days BASE_DATE (day_count (map digit_value s) - 1) =
            Inr (Date (toordinal BASE_DATE + (day_count (map digit_value s) - 1)))"
proof -
  let ?ds = "map digit_value s"
  have p: "parse_rnokpp s = Inr ?ds"
    using assms(1,2) by (simp add: parse_rnokpp_cases list_all_iff)
  note q = parse_rnokpp_Inr [OF p]
  have "calculate_control_digit (take 9 ?ds) = Inr ((weighted_sum ?ds mod 11) mod 10)"
    using q(1) by (simp add: control_digit_weighted weighted_sum_take)
  with assms(3) assms(1) have c: "?ds ! 9 = (weighted_sum ?ds mod 11) mod 10" by simp
  have o: "odd (?ds ! 8) \<longleftrightarrow> ?ds ! 8 mod 2 = 1" by presburger
  have e: "?ds ! 8 = digit_value (s ! 8)" using assms(1) by simp
  show "get_details s =
          Inr \<lparr>valid = True,
               gender = (if odd (digit_value (s ! 8)) then MALE else FEMALE),
               birthday = Date (toordinal BASE_DATE + (day_count ?ds - 1))\<rparr>"
    using p c o unfolding e [symmetric] by (simp add: get_details_cases)
  show "add_days BASE_DATE (day_count ?ds - 1) =
            Inr (Date (toordinal BASE_DATE + (day_count ?ds - 1)))"
    using day_count_range [OF q(1) q(2)] by (simp add: add_days_BASE)
qed

lemma ascii_digits_decimal:
  "\<forall>c\<in>set s. ascii_digit c \<Longrightarrow> (\<forall>c\<in>set s. isdecimal c) \<and> map digit_value s = ascii_digits s"
  by (simp add: ascii_digits_def ascii_digit_isdecimal)

text \<open>
  C2. For every input of ten characters \<open>0\<close> to \<open>9\<close> whose tenth digit is the checksum
  of the first nine, decoding succeeds with \<open>valid = True\<close>, the gender \<open>MALE\<close> when the
  digit at position 8 is odd and \<open>FEMALE\<close> when it is even, and the birthday
  \<open>BASE_DATE\<close> plus N - 1 days, N the number written by the first five digits. The
  same holds of every input of ten characters that \<open>int\<close> converts, read by their digit
  values. The date is not range-checked: the string of ten zeros has N = 0 and decodes
  to the day before \<open>BASE_DATE\<close>, 1899-12-31, \<open>FEMALE\<close>.
\<close>

theorem get_details_postcondition:
  "(length s = 10 \<and> (\<forall>c\<in>set s. ascii_digit c)
      \<and> calculate_control_digit (take 9 (ascii_digits s)) = Inr (ascii_digits s ! 9)
    \<longrightarrow> get_details s =
          Inr \<lparr>valid = True,
               gender = (if odd (ascii_digits s ! 8) then MALE else FEMALE),
               birthday = Date (toordinal BASE_DATE + (day_count (ascii_digits s) - 1))\<rparr>
        \<and> add_days BASE_DATE (day_count (ascii_digits s) - 1) =
            Inr (Date (toordinal BASE_DATE + (day_count (ascii_digits s) - 1))))
   \<and> (length s = 10 \<and> (\<forall>c\<in>set s. isdecimal c)
      \<and> calculate_control_digit (take 9 (map digit_value s)) = Inr (digit_value (s ! 9))
    \<longrightarrow> get_details s =
          Inr \<lparr>valid = True,
               gender = (if odd (digit_value (s ! 8)) then MALE else FEMALE),
               birthday = Date (toordinal BASE_DATE + (day_count (map digit_value s) - 1))\<rparr>)
   \<and> get_details (ascii ''0000000000'') =
       Inr \<lparr>valid = True, gender = FEMALE, birthday = Date 693595\<rparr>
   \<and> mk_date 1899 12 31 = Inr (Date 693595)"
proof (intro conjI impI)
  assume a: "length s = 10 \<and> (\<forall>c\<in>set s. ascii_digit c)
      \<and> calculate_control_digit (take 9 (ascii_digits s)) = Inr (ascii_digits s ! 9)"
  then have d: "\<forall>c\<in>set s. isdecimal c" "map digit_value s = ascii_digits s"
    using ascii_digits_decimal [of s] by simp_all
  have n: "ascii_digits s ! 9 = digit_value (s ! 9)" "ascii_digits s ! 8 = digit_value (s ! 8)"
    using a unfolding d(2) [symmetric] by simp_all
  have c: "calculate_control_digit (take 9 (map digit_value s)) = Inr (digit_value (s ! 9))"
    using a unfolding d(2) n by simp
  from a have l: "length s = 10" by simp
  note g = get_details_decimal [OF l d(1) c]
  show "get_details s =
          Inr \<lparr>valid = True,
               gender = (if odd (ascii_digits s ! 8) then MALE else FEMALE),
               birthday = Date (toordinal BASE_DATE + (day_count (ascii_digits s) - 1))\<rparr>"
    using g(1) unfolding d(2) n by simp
  show "add_days BASE_DATE (day_count (ascii_digits s) - 1) =
            Inr (Date (toordinal BASE_DATE + (day_count (ascii_digits s) - 1)))"
    using g(2) unfolding d(2) by simp
next
  assume "length s = 10 \<and> (\<forall>c\<in>set s. isdecimal c)
      \<and> calculate_control_digit (take 9 (map digit_value s)) = Inr (digit_value (s ! 9))"
  then show "get_details s =
          Inr \<lparr>valid = True,
               gender = (if odd (digit_value (s ! 8)) then MALE else FEMALE),
               birthday = Date (toordinal BASE_DATE + (day_count (map digit_value s) - 1))\<rparr>"
    by (simp add: get_details_decimal)
next
  show "get_details (ascii ''0000000000'') =
       Inr \<lparr>valid = True, gender = FEMALE, birthday = Date 693595\<rparr>"
    by (simp add: get_details_cases parse_rnokpp_cases ascii_def isdecimal_def digit_value_def
        to_decimal_ascii ascii_digit_def weighted_sum_unfold day_count_def BASE_DATE_def)
next
  show "mk_date 1899 12 31 = Inr (Date 693595)"
    by (simp add: mk_date_def days_in_month_def days_before_year_def days_before_month_def
        is_leap_def)
qed

theorem get_details_postcondition_witness:
  "length (ascii ''3652504575'') = 10 \<and> list_all ascii_digit (ascii ''3652504575'')
     \<and> ascii_digits (ascii ''3652504575'') = [3, 6, 5, 2, 5, 0, 4, 5, 7, 5]
     \<and> calculate_control_digit [3, 6, 5, 2, 5, 0, 4, 5, 7] = Inr 5
     \<and> get_details (ascii ''3652504575'') =
         Inr \<lparr>valid = True, gender = MALE, birthday = Date 730120\<rparr>
     \<and> mk_date 2000 1 1 = Inr (Date 730120)"
proof -
  have h: "length (ascii ''3652504575'') = 10 \<and> (\<forall>c\<in>set (ascii ''3652504575''). ascii_digit c)
      \<and> calculate_control_digit (take 9 (ascii_digits (ascii ''3652504575'')))
          = Inr (ascii_digits (ascii ''3652504575'') ! 9)"
    by (simp add: ascii_def ascii_digit_def ascii_digits_def control_digit_weighted
        weighted_sum_unfold)
  have m: "mk_date 2000 1 1 = Inr (Date 730120)"
    by (simp add: mk_date_def days_in_month_def days_before_year_def days_before_month_def
        is_leap_def)
  from get_details_postcondition [of "ascii ''3652504575''"] h
  have "get_details (ascii ''3652504575'') =
          Inr \<lparr>valid = True,
               gender = (if odd (ascii_digits (ascii ''3652504575'') ! 8) then MALE else FEMALE),
               birthday = Date (toordinal BASE_DATE
                 + (day_count (ascii_digits (ascii ''3652504575'')) - 1))\<rparr>"
    by blast
  then have "get_details (ascii ''3652504575'') =
         Inr \<lparr>valid = True, gender = MALE, birthday = Date 730120\<rparr>"
    by (simp add: ascii_def ascii_digits_def day_count_def BASE_DATE_def)
  with h m show ?thesis
    by (simp add: ascii_def ascii_digit_def ascii_digits_def control_digit_weighted
        weighted_sum_unfold)
qed

text \<open>
  C10. Two inputs that both decode and agree at the positions 0 to 4 and 8 decode to
  the same gender and the same birthday, whatever their digits at the positions 5 to 7
  and 9.
\<close>

theorem decode_ignores_random_digits:
  assumes "get_details s1 = Inr d1" and "get_details s2 = Inr d2"
    and "\<forall>i\<in>{0, 1, 2, 3, 4, 8}. s1 ! i = s2 ! i"
  shows "gender d1 = gender d2 \<and> birthday d1 = birthday d2"
proof -
  from assms(1) obtain ds1 where p1: "parse_rnokpp s1 = Inr ds1"
    by (auto simp: get_details_cases split: sum.splits)
  from assms(2) obtain ds2 where p2: "parse_rnokpp s2 = Inr ds2"
    by (auto simp: get_details_cases split: sum.splits)
  note q1 = parse_rnokpp_Inr [OF p1] and q2 = parse_rnokpp_Inr [OF p2]
  have l: "length s1 = 10" "length s2 = 10" using q1(1,4) q2(1,4) by auto
  have e: "\<forall>i\<in>{0, 1, 2, 3, 4, 8}. ds1 ! i = ds2 ! i"
    using assms(3) l unfolding q1(4) q2(4) by simp
  have "day_count ds1 = day_count ds2" and "ds1 ! 8 = ds2 ! 8"
    using e by (simp_all add: day_count_def)
  then show ?thesis
    using assms(1,2) p1 p2 by (auto simp: get_details_cases split: if_splits)
qed

theorem decode_ignores_random_digits_witness:
  "get_details (ascii ''3652504575'') = Inr \<lparr>valid = True, gender = MALE, birthday = Date 730120\<rparr>
   \<and> get_details (ascii ''3652500076'') = Inr \<lparr>valid = True, gender = MALE, birthday = Date 730120\<rparr>
   \<and> list_all (\<lambda>i. ascii ''3652504575'' ! i = ascii ''3652500076'' ! i) [0, 1, 2, 3, 4, 8]
   \<and> ascii ''3652504575'' ! 6 \<noteq> ascii ''3652500076'' ! 6"
proof -
  have a: "get_details (ascii ''3652504575'') = Inr \<lparr>valid = True, gender = MALE, birthday = Date 730120\<rparr>"
    by (simp add: get_details_cases parse_rnokpp_cases ascii_def isdecimal_def digit_value_def
        to_decimal_ascii ascii_digit_def weighted_sum_unfold day_count_def BASE_DATE_def)
  have b: "get_details (ascii ''3652500076'') = Inr \<lparr>valid = True, gender = MALE, birthday = Date 730120\<rparr>"
    by (simp add: get_details_cases parse_rnokpp_cases ascii_def isdecimal_def digit_value_def
        to_decimal_ascii ascii_digit_def weighted_sum_unfold day_count_def BASE_DATE_def)
  have c: "\<forall>i\<in>{0, 1, 2, 3, 4, 8}. ascii ''3652504575'' ! i = ascii ''3652500076'' ! i"
    by (simp add: ascii_def)
  from decode_ignores_random_digits [OF a b c] a b c show ?thesis
    by (simp add: ascii_def)
qed


text \<open>
  C7. \<open>is_valid\<close> raises on no string: it returns \<open>True\<close> exactly when \<open>get_details\<close>
  succeeds and \<open>False\<close> on each of its failures, which are the digit error, the two
  length errors and the control-digit error.
\<close>

theorem is_valid_total:
  "is_valid s = Inr (\<not> isl (get_details s))
   \<and> (\<forall>d. get_details s = Inr d \<longrightarrow> is_valid s = Inr True)
   \<and> (\<forall>e. get_details s = Inl e \<longrightarrow>
         is_valid s = Inr False
         \<and> e \<in> {StringDoesNotConsistOfDigits, MoreThan10Digits, LessThan10Digits,
                 InvalidControlDigit})"
proof -
  have a: "is_valid s = Inr True" if "get_details s = Inr d" for d
    using that get_details_valid [OF that] by (simp add: is_valid_def)
  have b: "is_valid s = Inr False" if "get_details s = Inl e" for e
    using that get_details_error [OF that] by (auto simp: is_valid_def)
  show ?thesis
    using a b get_details_error by (cases "get_details s") auto
qed

theorem is_valid_total_witness:
  "is_valid (ascii ''3652504575'') = Inr True
   \<and> get_details (ascii ''3652504576'') = Inl InvalidControlDigit
   \<and> is_valid (ascii ''3652504576'') = Inr False
   \<and> is_valid (ascii ''123456789'') = Inr False
   \<and> is_valid (ascii ''1234567890+'') = Inr False"
  using is_valid_total [of "ascii ''3652504575''"] is_valid_total [of "ascii ''3652504576''"]
    is_valid_total [of "ascii ''123456789''"] is_valid_total [of "ascii ''1234567890+''"]
  by (simp add: get_details_cases parse_rnokpp_cases ascii_def isdecimal_def digit_value_def
        to_decimal_ascii ascii_digit_def weighted_sum_unfold day_count_def BASE_DATE_def)


subsection \<open>Generation\<close>

lemma digits_of_lt10: "\<forall>d\<in>set (digits_of n). d < 10"
proof (induction n rule: digits_of.induct)
  case (1 n)
  show ?case
  proof (cases "n < 10")
    case True
    then show ?thesis by (simp add: digits_of.simps [of n])
  next
    case False
    with "1" show ?thesis by (simp add: digits_of.simps [of n])
  qed
qed

lemma digits_of_1: "n < 10 \<Longrightarrow> digits_of n = [n]"
  by (simp add: digits_of.simps)

lemma digits_of_2: "10 \<le> n \<Longrightarrow> n < 100 \<Longrightarrow> digits_of n = [n div 10, n mod 10]"
  by (subst digits_of.simps) (simp add: digits_of_1)

lemma digits_of_3:
  "100 \<le> n \<Longrightarrow> n < 1000 \<Longrightarrow> digits_of n = [n div 100, n div 10 mod 10, n mod 10]"
  by (subst digits_of.simps) (simp add: digits_of_2 div_mult2_eq [symmetric])

lemma digits_of_4:
  "1000 \<le> n \<Longrightarrow> n < 10000 \<Longrightarrow>
     digits_of n = [n div 1000, n div 100 mod 10, n div 10 mod 10, n mod 10]"
  by (subst digits_of.simps) (simp add: digits_of_3 div_mult2_eq [symmetric])

lemma digits_of_5:
  "10000 \<le> n \<Longrightarrow> n < 100000 \<Longrightarrow>
     digits_of n = [n div 10000, n div 1000 mod 10, n div 100 mod 10, n div 10 mod 10, n mod 10]"
  by (subst digits_of.simps) (simp add: digits_of_4 div_mult2_eq [symmetric])

lemma replicate_small:
  "replicate 4 x = [x, x, x, x]" "replicate 3 x = [x, x, x]" "replicate 2 x = [x, x]"
  by (simp_all add: numeral_eq_Suc)

lemma format_05d_five:
  assumes "0 \<le> n" "n \<le> 99999"
  shows "format_05d n = map digit_char (five_digits (nat n))"
proof -
  define m where "m = nat n"
  have m: "m < 100000" "\<not> n < 0" "nat n = m" using assms by (simp_all add: m_def)
  consider "m < 10" | "10 \<le> m \<and> m < 100" | "100 \<le> m \<and> m < 1000"
    | "1000 \<le> m \<and> m < 10000" | "10000 \<le> m \<and> m < 100000"
    using m(1) by linarith
  then show ?thesis
  proof cases
    case 1 then show ?thesis
      by (simp add: format_05d_def m digits_of_1 five_digits_def digit_char_def replicate_small)
  next
    case 2
    then have "m div 10 < 10" by (simp add: div_less_iff_less_mult)
    with 2 show ?thesis
      by (simp add: format_05d_def m digits_of_2 five_digits_def digit_char_def replicate_small)
  next
    case 3
    then have "m div 100 < 10" by (simp add: div_less_iff_less_mult)
    with 3 show ?thesis
      by (simp add: format_05d_def m digits_of_3 five_digits_def digit_char_def replicate_small)
  next
    case 4
    then have "m div 1000 < 10" by (simp add: div_less_iff_less_mult)
    with 4 show ?thesis
      by (simp add: format_05d_def m digits_of_4 five_digits_def digit_char_def replicate_small)
  next
    case 5 then show ?thesis
      by (simp add: format_05d_def m digits_of_5 five_digits_def digit_char_def)
  qed
qed


lemma five_digits_sum:
  fixes n :: nat
  assumes "n < 100000"
  shows "(n div 10000) * 10000 + (n div 1000 mod 10) * 1000 + (n div 100 mod 10) * 100
           + (n div 10 mod 10) * 10 + n mod 10 = n"
proof -
  have a: "n = (n div 10) * 10 + n mod 10" by simp
  have b: "n div 10 = (n div 100) * 10 + n div 10 mod 10"
    using div_mult_mod_eq [of "n div 10" 10] by (simp add: div_mult2_eq [symmetric])
  have c: "n div 100 = (n div 1000) * 10 + n div 100 mod 10"
    using div_mult_mod_eq [of "n div 100" 10] by (simp add: div_mult2_eq [symmetric])
  have d: "n div 1000 = (n div 10000) * 10 + n div 1000 mod 10"
    using div_mult_mod_eq [of "n div 1000" 10] by (simp add: div_mult2_eq [symmetric])
  from a b c d show ?thesis by linarith
qed

lemma five_digits_value:
  assumes "n < 100000"
  shows "day_count (map int (five_digits n) @ rest) = int n"
proof -
  have "day_count (map int (five_digits n) @ rest)
      = int ((n div 10000) * 10000 + (n div 1000 mod 10) * 1000 + (n div 100 mod 10) * 100
           + (n div 10 mod 10) * 10 + n mod 10)"
    unfolding five_digits_def day_count_def by simp
  then show ?thesis using five_digits_sum [OF assms] by simp
qed

lemma five_digits_lt10: "n < 100000 \<Longrightarrow> \<forall>d\<in>set (five_digits n). d < 10"
  by (simp add: five_digits_def div_less_iff_less_mult)


lemma digit_char_decimal:
  "d < 10 \<Longrightarrow> ascii_digit (digit_char d) \<and> isdecimal (digit_char d) \<and> digit_value (digit_char d) = int d"
proof -
  assume "d < 10"
  then have a: "ascii_digit (digit_char d)" by (simp add: ascii_digit_def digit_char_def)
  from ascii_digit_isdecimal [OF a] a show ?thesis by (simp add: digit_char_def)
qed

lemma str_int_digit: "0 \<le> k \<Longrightarrow> k \<le> 9 \<Longrightarrow> str_int k = [digit_char (nat k)]"
  by (simp add: str_int_def digits_of_1)

lemma format_05d_chars:
  assumes "0 \<le> n"
  shows "5 \<le> length (format_05d n)" and "\<forall>c\<in>set (format_05d n). ascii_digit c"
proof -
  let ?ds = "digits_of (nat n)"
  have f: "format_05d n = replicate (5 - length ?ds) (digit_char 0) @ map digit_char ?ds"
    using assms by (simp add: format_05d_def digit_char_def Let_def)
  show "5 \<le> length (format_05d n)" unfolding f by simp
  show "\<forall>c\<in>set (format_05d n). ascii_digit c"
    unfolding f using digits_of_lt10 [of "nat n"] digit_char_decimal [of 0]
    by (auto simp: digit_char_decimal)
qed

lemma randint_0_9:
  "randint 0 9 w = (Inr (int (draws w (drawn w) mod 10)), w\<lparr>drawn := Suc (drawn w)\<rparr>)"
  by (simp add: randint_def next_draw_def zmod_int)

lemma choice_digits:
  "choice (if g = MALE then MALE_DIGITS else FEMALE_DIGITS) w =
     (Inr ((if g = MALE then MALE_DIGITS else FEMALE_DIGITS) ! (draws w (drawn w) mod 5)),
      w\<lparr>drawn := Suc (drawn w)\<rparr>)"
  by (simp add: choice_def next_draw_def MALE_DIGITS_def FEMALE_DIGITS_def)

lemma gender_digit_range:
  "k < 5 \<Longrightarrow> 0 \<le> (if g = MALE then MALE_DIGITS else FEMALE_DIGITS) ! k
     \<and> (if g = MALE then MALE_DIGITS else FEMALE_DIGITS) ! k \<le> 9
     \<and> ((if g = MALE then MALE_DIGITS else FEMALE_DIGITS) ! k mod 2 = 1 \<longleftrightarrow> g = MALE)"
  by (cases g) (auto simp: MALE_DIGITS_def FEMALE_DIGITS_def less_Suc_eq numeral_eq_Suc)

lemma int_each_ascii:
  "\<forall>c\<in>set s. ascii_digit c \<Longrightarrow> int_each s = Inr (map digit_value s)"
  by (simp add: int_each_cases list_all_iff ascii_digit_isdecimal)

lemma bind_randint_0_9:
  "bind_io (randint 0 9) f w =
     f (int (draws w (drawn w) mod 10)) (w\<lparr>drawn := Suc (drawn w)\<rparr>)"
  by (simp add: bind_io_def randint_0_9)

lemma bind_choice_digits:
  "bind_io (choice (if g = MALE then MALE_DIGITS else FEMALE_DIGITS)) f w =
     f ((if g = MALE then MALE_DIGITS else FEMALE_DIGITS) ! (draws w (drawn w) mod 5))
       (w\<lparr>drawn := Suc (drawn w)\<rparr>)"
  by (simp add: bind_io_def choice_digits)

lemma generate_rnokpp_result:
  fixes date :: date and g :: Gender and w :: world
  assumes "BASE_DATE \<le> date" "date \<le> today w"
  defines "gd \<equiv> (if g = MALE then MALE_DIGITS else FEMALE_DIGITS)
                   ! (draws w (Suc (Suc (Suc (drawn w)))) mod 5)"
  defines "pre \<equiv> format_05d (diff_days date BASE_DATE + 1)
                  @ [digit_char (draws w (drawn w) mod 10),
                     digit_char (draws w (Suc (drawn w)) mod 10),
                     digit_char (draws w (Suc (Suc (drawn w))) mod 10),
                     digit_char (nat gd)]"
  shows "generate_rnokpp date g w =
           (Inr (pre @ [digit_char (nat ((weighted_sum (map digit_value pre) mod 11) mod 10))]),
            w\<lparr>drawn := Suc (Suc (Suc (Suc (drawn w))))\<rparr>)"
proof -
  let ?n = "diff_days date BASE_DATE + 1"
  let ?c = "(weighted_sum (map digit_value pre) mod 11) mod 10"
  have n: "0 \<le> ?n" using assms(1) by (simp add: diff_days_def less_eq_date_def)
  have g: "0 \<le> gd \<and> gd \<le> 9"
    unfolding gd_def
    using gender_digit_range [of "draws w (Suc (Suc (Suc (drawn w)))) mod 5" g] by simp
  have sg: "str_int gd = [digit_char (nat gd)]" using g by (simp add: str_int_digit)
  have sr: "str_int (int (k mod 10)) = [digit_char (k mod 10)]" for k :: nat
    by (simp add: str_int_digit)
  have pa: "\<forall>c\<in>set pre. ascii_digit c"
    unfolding pre_def using format_05d_chars(2) [OF n] g by (auto simp: digit_char_decimal)
  have ie: "int_each pre = Inr (map digit_value pre)" using pa by (rule int_each_ascii)
  have lp: "9 \<le> length pre" unfolding pre_def using format_05d_chars(1) [OF n] by simp
  have cd: "calculate_control_digit (map digit_value pre) = Inr ?c"
    using lp by (simp add: control_digit_weighted)
  have c: "0 \<le> ?c \<and> ?c \<le> 9" by presburger
  have sc: "str_int ?c = [digit_char (nat ?c)]" using c by (simp add: str_int_digit)
  have nl: "\<not> date < BASE_DATE" "\<not> today w < date" using assms(1,2) by simp_all
  have p: "format_05d ?n @ str_int (int (draws w (drawn w) mod 10))
             @ str_int (int (draws w (Suc (drawn w)) mod 10))
             @ str_int (int (draws w (Suc (Suc (drawn w))) mod 10)) @ str_int gd = pre"
    by (simp add: pre_def sr sg)
  show ?thesis
    unfolding generate_rnokpp_def Let_def
    by (simp only: nl if_False bind_randint_0_9 bind_choice_digits)
       (simp add: gd_def [symmetric] p ie cd sc return_io_def)
qed


lemma get_details_generated:
  fixes n :: nat and a b c gd :: nat and g :: Gender
  assumes "n < 100000" "a < 10" "b < 10" "c < 10" "gd < 10" "int gd mod 2 = 1 \<longleftrightarrow> g = MALE"
  defines "pre \<equiv> map digit_char (five_digits n) @ [digit_char a, digit_char b, digit_char c, digit_char gd]"
  defines "s \<equiv> pre @ [digit_char (nat ((weighted_sum (map digit_value pre) mod 11) mod 10))]"
  shows "length s = 10" and "\<forall>x\<in>set s. ascii_digit x"
    and "get_details s = Inr \<lparr>valid = True, gender = g, birthday = Date (toordinal BASE_DATE + (int n - 1))\<rparr>"
proof -
  let ?k = "(weighted_sum (map digit_value pre) mod 11) mod 10"
  have k: "0 \<le> ?k \<and> ?k \<le> 9" by presburger
  then have kn: "nat ?k < 10" by simp
  have f: "\<forall>d\<in>set (five_digits n). d < 10" using assms(1) by (rule five_digits_lt10)
  have lp: "length pre = 9" by (simp add: pre_def five_digits_def)
  show l: "length s = 10" by (simp add: s_def lp)
  show a: "\<forall>x\<in>set s. ascii_digit x"
    using f assms(2-5) kn by (auto simp: s_def pre_def digit_char_decimal)
  have dv: "map digit_value pre = map int (five_digits n) @ [int a, int b, int c, int gd]"
    using f assms(2-5) by (simp add: pre_def digit_char_decimal)
  have ds: "map digit_value s = map digit_value pre @ [?k]"
    using kn k by (simp add: s_def digit_char_decimal)
  have p: "parse_rnokpp s = Inr (map digit_value pre @ [?k])"
    using a l by (simp add: parse_rnokpp_cases list_all_iff ascii_digit_isdecimal ds)
  have w: "weighted_sum (map digit_value pre @ [?k]) = weighted_sum (map digit_value pre)"
    using weighted_sum_take [of "map digit_value pre @ [?k]"] lp by simp
  have n9: "(map digit_value pre @ [?k]) ! 9 = ?k"
    using lp by (simp add: nth_append)
  have n8: "(map digit_value pre @ [?k]) ! 8 = int gd"
    by (simp add: dv five_digits_def)
  have dc: "day_count (map digit_value pre @ [?k]) = int n"
    unfolding dv using five_digits_value [OF assms(1)] by simp
  show "get_details s = Inr \<lparr>valid = True, gender = g, birthday = Date (toordinal BASE_DATE + (int n - 1))\<rparr>"
    unfolding get_details_cases p
    using assms(6) by (cases g) (simp_all add: w n9 n8 dc)
qed


lemma generate_rnokpp_roundtrip:
  fixes date :: date and g :: Gender and w :: world
  assumes "BASE_DATE \<le> date" "date \<le> today w" "diff_days date BASE_DATE + 1 \<le> 99999"
  shows "\<exists>s. generate_rnokpp date g w = (Inr s, w\<lparr>drawn := Suc (Suc (Suc (Suc (drawn w))))\<rparr>)
           \<and> length s = 10 \<and> (\<forall>c\<in>set s. ascii_digit c)
           \<and> get_details s = Inr \<lparr>valid = True, gender = g, birthday = date\<rparr>"
proof -
  let ?N = "diff_days date BASE_DATE + 1"
  let ?gd = "(if g = MALE then MALE_DIGITS else FEMALE_DIGITS)
               ! (draws w (Suc (Suc (Suc (drawn w)))) mod 5)"
  define n where "n = nat ?N"
  have N: "0 \<le> ?N" using assms(1) by (simp add: diff_days_def less_eq_date_def)
  have n: "n < 100000" "int n = ?N" using N assms(3) by (simp_all add: n_def)
  have f: "format_05d ?N = map digit_char (five_digits n)"
    using format_05d_five [OF N assms(3)] by (simp add: n_def)
  have k5: "draws w (Suc (Suc (Suc (drawn w)))) mod 5 < 5" by simp
  note gr = gender_digit_range [OF k5, of g]
  have g0: "0 \<le> ?gd" "?gd \<le> 9" "?gd mod 2 = 1 \<longleftrightarrow> g = MALE"
    using gr by blast+
  have g1: "nat ?gd < 10" using g0(1,2) by linarith
  have g2: "int (nat ?gd) mod 2 = 1 \<longleftrightarrow> g = MALE"
    using g0(1,3) by (simp only: int_nat_eq if_True)
  have m: "k mod 10 < 10" for k :: nat by simp
  define pre where "pre = map digit_char (five_digits n)
      @ [digit_char (draws w (drawn w) mod 10), digit_char (draws w (Suc (drawn w)) mod 10),
         digit_char (draws w (Suc (Suc (drawn w))) mod 10), digit_char (nat ?gd)]"
  define s where
    "s = pre @ [digit_char (nat ((weighted_sum (map digit_value pre) mod 11) mod 10))]"
  note d = get_details_generated [OF n(1) m m m g1 g2,
      of "draws w (drawn w)" "draws w (Suc (drawn w))" "draws w (Suc (Suc (drawn w)))"]
  have d1: "length s = 10" using d(1) by (simp only: s_def pre_def)
  have d2: "\<forall>c\<in>set s. ascii_digit c" using d(2) by (simp only: s_def pre_def)
  have d3: "get_details s =
      Inr \<lparr>valid = True, gender = g, birthday = Date (toordinal BASE_DATE + (int n - 1))\<rparr>"
    using d(3) by (simp only: s_def pre_def)
  have b: "Date (toordinal BASE_DATE + (int n - 1)) = date"
    unfolding n(2) by (simp add: diff_days_def)
  have r: "generate_rnokpp date g w = (Inr s, w\<lparr>drawn := Suc (Suc (Suc (Suc (drawn w))))\<rparr>)"
    using generate_rnokpp_result [OF assms(1,2), of g] by (simp only: s_def pre_def f)
  from r d1 d2 d3 show ?thesis unfolding b by blast
qed

lemma digit_value_ascii:
  "digit_value 48 = 0" "digit_value 49 = 1" "digit_value 50 = 2" "digit_value 51 = 3"
  "digit_value 52 = 4" "digit_value 53 = 5" "digit_value 54 = 6" "digit_value 55 = 7"
  "digit_value 56 = 8" "digit_value 57 = 9"
  by (simp_all add: digit_value_def to_decimal_ascii ascii_digit_def)

lemma format_05d_examples:
  "format_05d 100000 = ascii ''100000''" "format_05d 36525 = ascii ''36525''"
  "format_05d 1 = ascii ''00001''" "format_05d 46329 = ascii ''46329''"
  "format_05d 8 = ascii ''00008''"
  by (simp_all add: format_05d_def digits_of.simps ascii_def digit_char_def replicate_small)

lemma generate_rnokpp_constant:
  assumes "toordinal BASE_DATE \<le> d" "d \<le> t"
  shows "generate_rnokpp (Date d) g \<lparr>today = Date t, draws = constant_draws r, drawn = k\<rparr> =
     (Inr (let pre = format_05d (d - 693595)
                  @ [digit_char (r mod 10), digit_char (r mod 10), digit_char (r mod 10),
                     digit_char (nat ((if g = MALE then MALE_DIGITS else FEMALE_DIGITS) ! (r mod 5)))]
          in pre @ [digit_char (nat ((weighted_sum (map digit_value pre) mod 11) mod 10))]),
      \<lparr>today = Date t, draws = constant_draws r, drawn = Suc (Suc (Suc (Suc k)))\<rparr>)"
proof -
  let ?w = "\<lparr>today = Date t, draws = constant_draws r, drawn = k\<rparr>"
  have h: "BASE_DATE \<le> Date d" "Date d \<le> today ?w"
    using assms by (simp_all add: less_eq_date_def)
  have n: "diff_days (Date d) BASE_DATE + 1 = d - 693595"
    by (simp add: diff_days_def BASE_DATE_def)
  show ?thesis
    unfolding generate_rnokpp_result [OF h, of g] n
    by (simp add: constant_draws_def Let_def)
qed

text \<open>
  C1, as the claim states it, fails once the current date is more than 99998 days after
  \<open>BASE_DATE\<close>: the day count then has six digits, the format \<open>05d\<close> does not
  truncate, and the generated string has eleven characters. On 2173-10-15, for that date
  and \<open>MALE\<close>, with every draw 0, the result is 10000000010, which decoding refuses
  with \<open>MoreThan10Digits\<close>.
\<close>

theorem roundtrip_fails_beyond_five_digits:
  "BASE_DATE \<le> Date 793595
   \<and> Date 793595 \<le> today \<lparr>today = Date 793595, draws = constant_draws 0, drawn = 0\<rparr>
   \<and> mk_date 2173 10 15 = Inr (Date 793595)
   \<and> fst (generate_rnokpp (Date 793595) MALE
            \<lparr>today = Date 793595, draws = constant_draws 0, drawn = 0\<rparr>)
       = Inr (ascii ''10000000010'')
   \<and> get_details (ascii ''10000000010'') = Inl MoreThan10Digits"
proof -
  have a: "BASE_DATE \<le> Date 793595"
    "Date 793595 \<le> today \<lparr>today = Date 793595, draws = constant_draws 0, drawn = 0\<rparr>"
    by (simp_all add: BASE_DATE_def less_eq_date_def)
  have b: "mk_date 2173 10 15 = Inr (Date 793595)"
    by (simp add: mk_date_def days_in_month_def days_before_year_def days_before_month_def
        is_leap_def)
  have c: "fst (generate_rnokpp (Date 793595) MALE
            \<lparr>today = Date 793595, draws = constant_draws 0, drawn = 0\<rparr>)
       = Inr (ascii ''10000000010'')"
    by (subst generate_rnokpp_constant)
      (simp_all add: BASE_DATE_def format_05d_examples MALE_DIGITS_def ascii_def digit_char_def
        weighted_sum_unfold digit_value_ascii)
  have d: "get_details (ascii ''10000000010'') = Inl MoreThan10Digits"
    by (simp add: get_details_cases parse_rnokpp_cases ascii_def isdecimal_def to_decimal_ascii
        ascii_digit_def)
  from a b c d show ?thesis by blast
qed

text \<open>
  C1, amended. For every date from \<open>BASE_DATE\<close> to the current date whose day count
  (days since \<open>BASE_DATE\<close>, plus one) is at most 99999, that is, up to 2173-10-14, for
  both genders and for every state of the random generator, \<open>generate_rnokpp\<close> returns a
  string of ten characters \<open>0\<close> to \<open>9\<close> that \<open>get_details\<close> decodes to
  \<open>valid = True\<close>, the same gender and the same date, and that \<open>is_valid\<close> accepts.
\<close>

theorem generate_decode_roundtrip:
  assumes "BASE_DATE \<le> date" "date \<le> today w" "diff_days date BASE_DATE + 1 \<le> 99999"
  shows "\<exists>s w'. generate_rnokpp date g w = (Inr s, w')
           \<and> length s = 10 \<and> (\<forall>c\<in>set s. ascii_digit c)
           \<and> get_details s = Inr \<lparr>valid = True, gender = g, birthday = date\<rparr>
           \<and> is_valid s = Inr True"
proof -
  from generate_rnokpp_roundtrip [OF assms, of g] obtain s where
    s: "generate_rnokpp date g w = (Inr s, w\<lparr>drawn := Suc (Suc (Suc (Suc (drawn w))))\<rparr>)"
      "length s = 10" "\<forall>c\<in>set s. ascii_digit c"
      "get_details s = Inr \<lparr>valid = True, gender = g, birthday = date\<rparr>"
    by blast
  have "is_valid s = Inr True" using s(4) by (simp add: is_valid_def)
  with s show ?thesis by blast
qed

theorem generate_decode_roundtrip_witness:
  "BASE_DATE \<le> Date 730120
   \<and> Date 730120 \<le> today \<lparr>today = Date 739924, draws = constant_draws 7, drawn = 0\<rparr>
   \<and> diff_days (Date 730120) BASE_DATE + 1 = 36525
   \<and> fst (generate_rnokpp (Date 730120) MALE
            \<lparr>today = Date 739924, draws = constant_draws 7, drawn = 0\<rparr>)
       = Inr (ascii ''3652577757'')
   \<and> get_details (ascii ''3652577757'')
       = Inr \<lparr>valid = True, gender = MALE, birthday = Date 730120\<rparr>"
proof -
  let ?w = "\<lparr>today = Date 739924, draws = constant_draws 7, drawn = 0\<rparr>"
  have h: "BASE_DATE \<le> Date 730120" "Date 730120 \<le> today ?w"
    "diff_days (Date 730120) BASE_DATE + 1 \<le> 99999"
    by (simp_all add: BASE_DATE_def less_eq_date_def diff_days_def)
  have n: "diff_days (Date 730120) BASE_DATE + 1 = 36525"
    by (simp add: BASE_DATE_def diff_days_def)
  have e: "fst (generate_rnokpp (Date 730120) MALE ?w) = Inr (ascii ''3652577757'')"
    by (subst generate_rnokpp_constant)
      (simp_all add: BASE_DATE_def format_05d_examples MALE_DIGITS_def ascii_def digit_char_def
        weighted_sum_unfold digit_value_ascii)
  from generate_decode_roundtrip [OF h, of MALE] obtain s w' where
    s: "generate_rnokpp (Date 730120) MALE ?w = (Inr s, w')"
       "get_details s = Inr \<lparr>valid = True, gender = MALE, birthday = Date 730120\<rparr>"
    by blast
  from s(1) e have "s = ascii ''3652577757''" by simp
  with s(2) h n e show ?thesis by blast
qed

lemma generate_rnokpp_too_early:
  "date < BASE_DATE \<Longrightarrow> generate_rnokpp date g w = (Inl (NotAllowedDate date), w)"
  by (simp add: generate_rnokpp_def)

lemma generate_rnokpp_future:
  "BASE_DATE \<le> date \<Longrightarrow> today w < date \<Longrightarrow>
     generate_rnokpp date g w = (Inl (DateInFuture date), w)"
  by (simp add: generate_rnokpp_def)

lemma generate_rnokpp_succeeds:
  "BASE_DATE \<le> date \<Longrightarrow> date \<le> today w \<Longrightarrow> \<exists>s. fst (generate_rnokpp date g w) = Inr s"
  by (simp add: generate_rnokpp_result)

text \<open>
  C8. For every date, gender and world, \<open>generate_rnokpp\<close> fails with
  \<open>NotAllowedDate\<close> exactly when the date is before \<open>BASE_DATE\<close>, fails with
  \<open>DateInFuture\<close> exactly when the date is not before \<open>BASE_DATE\<close> and is after the
  current date, and succeeds otherwise; a failure consumes no draw. In particular, when
  the current date is not before \<open>BASE_DATE\<close>, the calls for \<open>BASE_DATE\<close> and for the
  current date succeed, the call for the day before \<open>BASE_DATE\<close> fails with
  \<open>NotAllowedDate\<close> and the call for the day after the current date fails with
  \<open>DateInFuture\<close>.
\<close>

theorem generate_rnokpp_date_bounds:
  "(date < BASE_DATE \<longrightarrow> generate_rnokpp date g w = (Inl (NotAllowedDate date), w))
   \<and> (BASE_DATE \<le> date \<and> today w < date \<longrightarrow>
         generate_rnokpp date g w = (Inl (DateInFuture date), w))
   \<and> (BASE_DATE \<le> date \<and> date \<le> today w \<longrightarrow> (\<exists>s. fst (generate_rnokpp date g w) = Inr s))
   \<and> ((\<exists>d. fst (generate_rnokpp date g w) = Inl (NotAllowedDate d)) \<longrightarrow> date < BASE_DATE)
   \<and> ((\<exists>d. fst (generate_rnokpp date g w) = Inl (DateInFuture d)) \<longrightarrow>
         BASE_DATE \<le> date \<and> today w < date)
   \<and> ((\<exists>s. fst (generate_rnokpp date g w) = Inr s) \<longrightarrow> BASE_DATE \<le> date \<and> date \<le> today w)
   \<and> (BASE_DATE \<le> today w \<longrightarrow>
         (\<exists>s. fst (generate_rnokpp BASE_DATE g w) = Inr s)
         \<and> (\<exists>s. fst (generate_rnokpp (today w) g w) = Inr s)
         \<and> add_days BASE_DATE (- 1) = Inr (Date 693595)
         \<and> fst (generate_rnokpp (Date 693595) g w) = Inl (NotAllowedDate (Date 693595))
         \<and> (\<forall>d. add_days (today w) 1 = Inr d \<longrightarrow>
               fst (generate_rnokpp d g w) = Inl (DateInFuture d)))"
proof -
  consider (early) "date < BASE_DATE" | (future) "BASE_DATE \<le> date" "today w < date"
    | (ok) "BASE_DATE \<le> date" "date \<le> today w"
    by (meson not_le_imp_less)
  then have general:
    "(date < BASE_DATE \<longrightarrow> generate_rnokpp date g w = (Inl (NotAllowedDate date), w))
     \<and> (BASE_DATE \<le> date \<and> today w < date \<longrightarrow>
           generate_rnokpp date g w = (Inl (DateInFuture date), w))
     \<and> (BASE_DATE \<le> date \<and> date \<le> today w \<longrightarrow> (\<exists>s. fst (generate_rnokpp date g w) = Inr s))
     \<and> ((\<exists>d. fst (generate_rnokpp date g w) = Inl (NotAllowedDate d)) \<longrightarrow> date < BASE_DATE)
     \<and> ((\<exists>d. fst (generate_rnokpp date g w) = Inl (DateInFuture d)) \<longrightarrow>
           BASE_DATE \<le> date \<and> today w < date)
     \<and> ((\<exists>s. fst (generate_rnokpp date g w) = Inr s) \<longrightarrow> BASE_DATE \<le> date \<and> date \<le> today w)"
  proof cases
    case early
    then show ?thesis using generate_rnokpp_too_early [OF early, of g w] by auto
  next
    case future
    then show ?thesis using generate_rnokpp_future [OF future, of g] by auto
  next
    case ok
    then show ?thesis using generate_rnokpp_succeeds [OF ok, of g] by auto
  qed
  have particular: "(\<exists>s. fst (generate_rnokpp BASE_DATE g w) = Inr s)
         \<and> (\<exists>s. fst (generate_rnokpp (today w) g w) = Inr s)
         \<and> add_days BASE_DATE (- 1) = Inr (Date 693595)
         \<and> fst (generate_rnokpp (Date 693595) g w) = Inl (NotAllowedDate (Date 693595))
         \<and> (\<forall>d. add_days (today w) 1 = Inr d \<longrightarrow>
               fst (generate_rnokpp d g w) = Inl (DateInFuture d))"
    if t: "BASE_DATE \<le> today w"
  proof (intro conjI allI impI)
    show "\<exists>s. fst (generate_rnokpp BASE_DATE g w) = Inr s"
      using t by (simp add: generate_rnokpp_succeeds)
    show "\<exists>s. fst (generate_rnokpp (today w) g w) = Inr s"
      using t by (simp add: generate_rnokpp_succeeds)
    show "add_days BASE_DATE (- 1) = Inr (Date 693595)"
      by (simp add: add_days_def BASE_DATE_def MAXORDINAL_def)
    have "Date 693595 < BASE_DATE" by (simp add: BASE_DATE_def less_date_def)
    then show "fst (generate_rnokpp (Date 693595) g w) = Inl (NotAllowedDate (Date 693595))"
      by (simp add: generate_rnokpp_too_early)
  next
    fix d assume "add_days (today w) 1 = Inr d"
    then have "toordinal d = toordinal (today w) + 1"
      by (auto simp: add_days_def split: if_splits)
    then have "today w < d" "BASE_DATE \<le> d"
      using t by (simp_all add: less_date_def less_eq_date_def)
    then show "fst (generate_rnokpp d g w) = Inl (DateInFuture d)"
      by (simp add: generate_rnokpp_future)
  qed
  from general particular show ?thesis by blast
qed

theorem generate_rnokpp_date_bounds_witness:
  "BASE_DATE \<le> today \<lparr>today = Date 739924, draws = constant_draws 7, drawn = 0\<rparr>
   \<and> mk_date 2026 11 4 = Inr (Date 739924)
   \<and> fst (generate_rnokpp BASE_DATE MALE
            \<lparr>today = Date 739924, draws = constant_draws 7, drawn = 0\<rparr>)
       = Inr (ascii ''0000177750'')
   \<and> fst (generate_rnokpp (Date 739924) MALE
            \<lparr>today = Date 739924, draws = constant_draws 7, drawn = 0\<rparr>)
       = Inr (ascii ''4632977758'')
   \<and> fst (generate_rnokpp (Date 693595) MALE
            \<lparr>today = Date 739924, draws = constant_draws 7, drawn = 0\<rparr>)
       = Inl (NotAllowedDate (Date 693595))
   \<and> add_days (Date 739924) 1 = Inr (Date 739925)
   \<and> fst (generate_rnokpp (Date 739925) MALE
            \<lparr>today = Date 739924, draws = constant_draws 7, drawn = 0\<rparr>)
       = Inl (DateInFuture (Date 739925))"
proof -
  let ?w = "\<lparr>today = Date 739924, draws = constant_draws 7, drawn = 0\<rparr>"
  have t: "BASE_DATE \<le> today ?w" by (simp add: BASE_DATE_def less_eq_date_def)
  have m: "mk_date 2026 11 4 = Inr (Date 739924)"
    by (simp add: mk_date_def days_in_month_def days_before_year_def days_before_month_def
        is_leap_def)
  have a: "add_days (today ?w) 1 = Inr (Date 739925)"
    by (simp add: add_days_def MAXORDINAL_def)
  have e1: "fst (generate_rnokpp BASE_DATE MALE ?w) = Inr (ascii ''0000177750'')"
    unfolding BASE_DATE_def
    by (subst generate_rnokpp_constant)
      (simp_all add: BASE_DATE_def format_05d_examples MALE_DIGITS_def ascii_def digit_char_def
        weighted_sum_unfold digit_value_ascii)
  have e2: "fst (generate_rnokpp (Date 739924) MALE ?w) = Inr (ascii ''4632977758'')"
    by (subst generate_rnokpp_constant)
      (simp_all add: BASE_DATE_def format_05d_examples MALE_DIGITS_def ascii_def digit_char_def
        weighted_sum_unfold digit_value_ascii)
  from generate_rnokpp_date_bounds [of BASE_DATE MALE ?w] t a
  have "fst (generate_rnokpp (Date 693595) MALE ?w) = Inl (NotAllowedDate (Date 693595))"
    and "fst (generate_rnokpp (Date 739925) MALE ?w) = Inl (DateInFuture (Date 739925))"
    by blast+
  with t m a e1 e2 show ?thesis by simp
qed

subsection \<open>Batch generation\<close>

lemma randint_in_range:
  assumes "0 \<le> b"
  shows "\<exists>r. randint 0 b w = (Inr r, w\<lparr>drawn := Suc (drawn w)\<rparr>) \<and> 0 \<le> r \<and> r \<le> b"
proof -
  let ?r = "int (draws w (drawn w)) mod (b + 1)"
  have p: "0 < b + 1" using assms by linarith
  have "0 \<le> ?r" using p by (rule pos_mod_sign)
  moreover have "?r < b + 1" using p by (rule pos_mod_bound)
  ultimately have "0 \<le> ?r \<and> ?r \<le> b" by linarith
  then show ?thesis using assms by (simp add: randint_def next_draw_def)
qed

lemma Gender_random_result:
  "\<exists>g. Gender_random w = (Inr g, w\<lparr>drawn := Suc (drawn w)\<rparr>)"
  by (simp add: Gender_random_def choice_def next_draw_def)

lemma generate_random_rnokpp_ok:
  assumes "BASE_DATE \<le> today w" "toordinal (today w) \<le> toordinal BASE_DATE + 99998"
  shows "\<exists>s w'. generate_random_rnokpp w = (Inr s, w') \<and> today w' = today w
           \<and> length s = 10 \<and> is_valid s = Inr True"
proof -
  let ?range = "diff_days (today w) BASE_DATE"
  have r0: "0 \<le> ?range" "?range \<le> 99998"
    using assms by (simp_all add: diff_days_def less_eq_date_def)
  from randint_in_range [OF r0(1), of w] obtain r where
    r: "randint 0 ?range w = (Inr r, w\<lparr>drawn := Suc (drawn w)\<rparr>)" "0 \<le> r" "r \<le> ?range"
    by blast
  let ?w1 = "w\<lparr>drawn := Suc (drawn w)\<rparr>"
  let ?d = "Date (toordinal BASE_DATE + r)"
  have a: "add_days BASE_DATE r = Inr ?d"
    using r(2,3) r0(2) by (simp add: add_days_def BASE_DATE_def MAXORDINAL_def)
  from Gender_random_result [of ?w1] obtain g where
    g: "Gender_random ?w1 = (Inr g, ?w1\<lparr>drawn := Suc (drawn ?w1)\<rparr>)"
    by blast
  let ?w2 = "?w1\<lparr>drawn := Suc (drawn ?w1)\<rparr>"
  have h: "BASE_DATE \<le> ?d" "?d \<le> today ?w2" "diff_days ?d BASE_DATE + 1 \<le> 99999"
    using r(2,3) r0(2) by (simp_all add: less_eq_date_def diff_days_def)
  from generate_rnokpp_roundtrip [OF h, of g] obtain s where
    s: "generate_rnokpp ?d g ?w2 = (Inr s, ?w2\<lparr>drawn := Suc (Suc (Suc (Suc (drawn ?w2))))\<rparr>)"
      "length s = 10" "get_details s = Inr \<lparr>valid = True, gender = g, birthday = ?d\<rparr>"
    by blast
  have v: "is_valid s = Inr True" using s(3) by (simp add: is_valid_def)
  have "generate_random_rnokpp w = (Inr s, ?w2\<lparr>drawn := Suc (Suc (Suc (Suc (drawn ?w2))))\<rparr>)"
    unfolding generate_random_rnokpp_def Let_def
    using r(1) a g s(1) by (simp add: bind_io_def)
  with s(2) v show ?thesis by auto
qed

lemma generate_rnokpp_not_count_error:
  "fst (generate_rnokpp date g w) \<noteq> Inl NumberGreaterThanZero"
proof -
  consider "date < BASE_DATE" | "BASE_DATE \<le> date" "today w < date"
    | "BASE_DATE \<le> date" "date \<le> today w"
    by (meson not_le_imp_less)
  then show ?thesis
  proof cases
    case 1 then show ?thesis by (simp add: generate_rnokpp_too_early)
  next
    case 2 then show ?thesis by (simp add: generate_rnokpp_future)
  next
    case 3 then show ?thesis using generate_rnokpp_succeeds [OF 3, of g] by auto
  qed
qed

lemma generate_random_rnokpp_not_count_error:
  "fst (generate_random_rnokpp w) \<noteq> Inl NumberGreaterThanZero"
proof -
  let ?range = "diff_days (today w) BASE_DATE"
  show ?thesis
  proof (cases "?range < 0")
    case True
    then show ?thesis
      by (simp add: generate_random_rnokpp_def Let_def bind_io_def randint_def)
  next
    case False
    then have "0 \<le> ?range" by simp
    from randint_in_range [OF this, of w] obtain r where
      r: "randint 0 ?range w = (Inr r, w\<lparr>drawn := Suc (drawn w)\<rparr>)" by blast
    let ?w1 = "w\<lparr>drawn := Suc (drawn w)\<rparr>"
    from Gender_random_result [of ?w1] obtain g where
      g: "Gender_random ?w1 = (Inr g, ?w1\<lparr>drawn := Suc (drawn ?w1)\<rparr>)" by blast
    show ?thesis
    proof (cases "add_days BASE_DATE r")
      case (Inl e)
      then have "e = OverflowError" by (auto simp: add_days_def split: if_splits)
      with Inl show ?thesis
        by (simp add: generate_random_rnokpp_def Let_def bind_io_def r raise_io_def)
    next
      case (Inr d)
      then show ?thesis
        using generate_rnokpp_not_count_error [of d g "?w1\<lparr>drawn := Suc (drawn ?w1)\<rparr>"]
        by (simp add: generate_random_rnokpp_def Let_def bind_io_def r g)
    qed
  qed
qed

lemma repeat_generate_ok:
  assumes "BASE_DATE \<le> today w" "toordinal (today w) \<le> toordinal BASE_DATE + 99998"
  shows "\<exists>xs w'. repeat_io n generate_random_rnokpp w = (Inr xs, w') \<and> today w' = today w
           \<and> length xs = n \<and> (\<forall>s\<in>set xs. length s = 10 \<and> is_valid s = Inr True)"
  using assms
proof (induction n arbitrary: w)
  case 0
  then show ?case by (simp add: return_io_def)
next
  case (Suc n)
  from generate_random_rnokpp_ok [OF Suc.prems] obtain s w1 where
    s: "generate_random_rnokpp w = (Inr s, w1)" "today w1 = today w" "length s = 10"
      "is_valid s = Inr True"
    by blast
  have "BASE_DATE \<le> today w1" "toordinal (today w1) \<le> toordinal BASE_DATE + 99998"
    using Suc.prems s(2) by simp_all
  from Suc.IH [OF this] obtain xs w2 where
    xs: "repeat_io n generate_random_rnokpp w1 = (Inr xs, w2)" "today w2 = today w1"
      "length xs = n" "\<forall>s\<in>set xs. length s = 10 \<and> is_valid s = Inr True"
    by blast
  have "repeat_io (Suc n) generate_random_rnokpp w = (Inr (s # xs), w2)"
    by (simp add: bind_io_def s(1) xs(1) return_io_def)
  with s xs show ?case by auto
qed

lemma repeat_generate_not_count_error:
  "fst (repeat_io n generate_random_rnokpp w) \<noteq> Inl NumberGreaterThanZero"
proof (induction n arbitrary: w)
  case 0
  then show ?case by (simp add: return_io_def)
next
  case (Suc n)
  show ?case
  proof (cases "generate_random_rnokpp w")
    case (Pair r w1)
    show ?thesis
    proof (cases r)
      case (Inl e)
      with Pair generate_random_rnokpp_not_count_error [of w] show ?thesis
        by (simp add: bind_io_def)
    next
      case (Inr s)
      with Pair Suc.IH [of w1] show ?thesis
        by (cases "repeat_io n generate_random_rnokpp w1")
          (auto simp: bind_io_def return_io_def split: sum.splits)
    qed
  qed
qed

lemma Gender_random_constant:
  "Gender_random \<lparr>today = d, draws = constant_draws r, drawn = k\<rparr> =
     (Inr (if even r then MALE else FEMALE),
      \<lparr>today = d, draws = constant_draws r, drawn = Suc k\<rparr>)"
proof -
  have "r mod 2 = 0 \<or> r mod 2 = 1" by presburger
  then show ?thesis
    by (auto simp: Gender_random_def choice_def next_draw_def constant_draws_def
        numeral_2_eq_2 [symmetric] even_iff_mod_2_eq_zero)
qed

lemma generate_random_rnokpp_constant:
  assumes "693596 \<le> t" "t \<le> 3652059"
  shows "generate_random_rnokpp \<lparr>today = Date t, draws = constant_draws r, drawn = k\<rparr> =
     generate_rnokpp (Date (693596 + int r mod (t - 693595))) (if even r then MALE else FEMALE)
       \<lparr>today = Date t, draws = constant_draws r, drawn = Suc (Suc k)\<rparr>"
proof -
  let ?w = "\<lparr>today = Date t, draws = constant_draws r, drawn = k\<rparr>"
  let ?m = "int r mod (t - 693595)"
  have p: "0 < t - 693595" using assms(1) by linarith
  have "0 \<le> ?m" using p by (rule pos_mod_sign)
  moreover have "?m < t - 693595" using p by (rule pos_mod_bound)
  ultimately have a: "add_days BASE_DATE ?m = Inr (Date (693596 + ?m))"
    using assms(2) by (simp add: add_days_def BASE_DATE_def MAXORDINAL_def)
  have r: "randint 0 (diff_days (today ?w) BASE_DATE) ?w =
      (Inr ?m, \<lparr>today = Date t, draws = constant_draws r, drawn = Suc k\<rparr>)"
    using assms(1)
    by (simp add: randint_def next_draw_def constant_draws_def diff_days_def BASE_DATE_def)
  show ?thesis
    unfolding generate_random_rnokpp_def Let_def
    using r a by (simp add: bind_io_def Gender_random_constant)
qed

lemma fst_repeat_one:
  "fst (repeat_io (Suc 0) m w) = (case fst (m w) of Inl e \<Rightarrow> Inl e | Inr x \<Rightarrow> Inr [x])"
  by (simp add: bind_io_def return_io_def split: prod.splits sum.splits)

text \<open>
  C9, as the claim states it, fails for the same reason as C1: once the current date is
  more than 99998 days after \<open>BASE_DATE\<close>, a random date can have a day count of six
  digits. On 2173-10-15 with every raw draw 99999, \<open>generate_random_rnokpp_n 1\<close>
  returns the single string 10000099980, of eleven characters, which \<open>is_valid\<close>
  rejects.
\<close>

theorem batch_invalid_beyond_five_digits:
  "(0 :: int) < 1
   \<and> BASE_DATE \<le> today \<lparr>today = Date 793595, draws = constant_draws 99999, drawn = 0\<rparr>
   \<and> mk_date 2173 10 15 = Inr (Date 793595)
   \<and> fst (generate_random_rnokpp_n 1
            \<lparr>today = Date 793595, draws = constant_draws 99999, drawn = 0\<rparr>)
       = Inr [ascii ''10000099980'']
   \<and> is_valid (ascii ''10000099980'') = Inr False"
proof -
  let ?w = "\<lparr>today = Date 793595, draws = constant_draws 99999, drawn = 0\<rparr>"
  have t: "BASE_DATE \<le> today ?w"
    by (simp add: BASE_DATE_def less_eq_date_def)
  have m: "mk_date 2173 10 15 = Inr (Date 793595)"
    by (simp add: mk_date_def days_in_month_def days_before_year_def days_before_month_def
        is_leap_def)
  have g: "fst (generate_random_rnokpp ?w) = Inr (ascii ''10000099980'')"
    by (subst generate_random_rnokpp_constant, simp, simp, subst generate_rnokpp_constant)
      (simp_all add: BASE_DATE_def format_05d_examples FEMALE_DIGITS_def ascii_def
        digit_char_def weighted_sum_unfold digit_value_ascii)
  have e: "fst (generate_random_rnokpp_n 1 ?w) = Inr [ascii ''10000099980'']"
    by (simp add: generate_random_rnokpp_n_def fst_repeat_one g del: repeat_io.simps)
  have v: "is_valid (ascii ''10000099980'') = Inr False"
    by (simp add: is_valid_def get_details_cases parse_rnokpp_cases ascii_def isdecimal_def
        to_decimal_ascii ascii_digit_def)
  from t m e v show ?thesis by simp
qed


text \<open>
  C9, amended. \<open>generate_random_rnokpp_n\<close> raises \<open>NumberGreaterThanZero\<close> if and only
  if the count is at most 0, and then before any draw is consumed (the world is returned
  unchanged). For a positive count, when the current date is not before \<open>BASE_DATE\<close>
  and at most 99998 days after it (up to 2173-10-14), it returns exactly \<open>count\<close>
  strings, each of ten characters and accepted by \<open>is_valid\<close>; the strings need not be
  distinct.
\<close>

theorem generate_random_rnokpp_n_result:
  "(count \<le> 0 \<longrightarrow> generate_random_rnokpp_n count w = (Inl NumberGreaterThanZero, w))
   \<and> (fst (generate_random_rnokpp_n count w) = Inl NumberGreaterThanZero \<longrightarrow> count \<le> 0)
   \<and> (0 < count \<and> BASE_DATE \<le> today w \<and> toordinal (today w) \<le> toordinal BASE_DATE + 99998
        \<longrightarrow> (\<exists>xs w'. generate_random_rnokpp_n count w = (Inr xs, w')
               \<and> int (length xs) = count
               \<and> (\<forall>s\<in>set xs. length s = 10 \<and> is_valid s = Inr True)))"
proof (intro conjI impI)
  assume "count \<le> 0"
  then show "generate_random_rnokpp_n count w = (Inl NumberGreaterThanZero, w)"
    by (simp add: generate_random_rnokpp_n_def raise_io_def)
next
  assume "fst (generate_random_rnokpp_n count w) = Inl NumberGreaterThanZero"
  then show "count \<le> 0"
    using repeat_generate_not_count_error [of "nat count" w]
    by (auto simp: generate_random_rnokpp_n_def split: if_splits)
next
  assume a: "0 < count \<and> BASE_DATE \<le> today w
    \<and> toordinal (today w) \<le> toordinal BASE_DATE + 99998"
  then have t: "BASE_DATE \<le> today w" "toordinal (today w) \<le> toordinal BASE_DATE + 99998"
    by simp_all
  from repeat_generate_ok [OF t, of "nat count"] a
  show "\<exists>xs w'. generate_random_rnokpp_n count w = (Inr xs, w')
               \<and> int (length xs) = count
               \<and> (\<forall>s\<in>set xs. length s = 10 \<and> is_valid s = Inr True)"
    by (auto simp: generate_random_rnokpp_n_def)
qed


theorem generate_random_rnokpp_n_result_witness:
  "(0 :: int) < 2
   \<and> BASE_DATE \<le> today \<lparr>today = Date 739924, draws = constant_draws 7, drawn = 0\<rparr>
   \<and> toordinal (today \<lparr>today = Date 739924, draws = constant_draws 7, drawn = 0\<rparr>)
        \<le> toordinal BASE_DATE + 99998
   \<and> fst (generate_random_rnokpp_n 2
            \<lparr>today = Date 739924, draws = constant_draws 7, drawn = 0\<rparr>)
       = Inr [ascii ''0000877749'', ascii ''0000877749'']
   \<and> is_valid (ascii ''0000877749'') = Inr True
   \<and> generate_random_rnokpp_n 0 \<lparr>today = Date 739924, draws = constant_draws 7, drawn = 0\<rparr>
       = (Inl NumberGreaterThanZero,
          \<lparr>today = Date 739924, draws = constant_draws 7, drawn = 0\<rparr>)
   \<and> fst (generate_random_rnokpp_n (- 3)
            \<lparr>today = Date 739924, draws = constant_draws 7, drawn = 0\<rparr>)
       = Inl NumberGreaterThanZero"
proof -
  let ?w = "\<lparr>today = Date 739924, draws = constant_draws 7, drawn = 0\<rparr>"
  have h: "(0 :: int) < 2 \<and> BASE_DATE \<le> today ?w
      \<and> toordinal (today ?w) \<le> toordinal BASE_DATE + 99998"
    by (simp add: BASE_DATE_def less_eq_date_def)
  have g: "generate_random_rnokpp \<lparr>today = Date 739924, draws = constant_draws 7, drawn = k\<rparr>
      = (Inr (ascii ''0000877749''),
         \<lparr>today = Date 739924, draws = constant_draws 7,
           drawn = Suc (Suc (Suc (Suc (Suc (Suc k)))))\<rparr>)" for k
    by (subst generate_random_rnokpp_constant, simp, simp, subst generate_rnokpp_constant)
      (simp_all add: BASE_DATE_def format_05d_examples FEMALE_DIGITS_def ascii_def
        digit_char_def weighted_sum_unfold digit_value_ascii)
  have e: "fst (generate_random_rnokpp_n 2 ?w)
      = Inr [ascii ''0000877749'', ascii ''0000877749'']"
    by (simp add: generate_random_rnokpp_n_def numeral_2_eq_2 bind_io_def return_io_def g)
  from generate_random_rnokpp_n_result [of 2 ?w] h obtain xs w' where
    xs: "generate_random_rnokpp_n 2 ?w = (Inr xs, w')"
      "\<forall>s\<in>set xs. length s = 10 \<and> is_valid s = Inr True"
    by blast
  from xs(1) e have "xs = [ascii ''0000877749'', ascii ''0000877749'']" by simp
  with xs(2) have v: "is_valid (ascii ''0000877749'') = Inr True" by simp
  from generate_random_rnokpp_n_result [of 0 ?w]
  have z: "generate_random_rnokpp_n 0 ?w = (Inl NumberGreaterThanZero, ?w)" by simp
  from generate_random_rnokpp_n_result [of "- 3" ?w]
  have n: "fst (generate_random_rnokpp_n (- 3) ?w) = Inl NumberGreaterThanZero" by simp
  from h e v z n show ?thesis by simp
qed


end
